theory Spec2Isabelle
  imports Main "HOL-Library.AList"
begin

section \<open>Python values, strings and truthiness\<close>

text \<open>
  The controller layer of \<^verbatim>\<open>ninja_extra/controllers/base.py\<close> is embedded
  function by function. Objects that the code compares by identity (classes, route
  functions, controller descriptors, application instances) carry a natural number as
  their identity; classes and route functions, which the code mutates through shared
  references, live in a store that is passed along explicitly.
\<close>

type_synonym cid = nat   \<comment> \<open>identity of a class object\<close>
type_synonym rfid = nat  \<comment> \<open>identity of a \<^verbatim>\<open>RouteFunction\<close> object\<close>
type_synonym aid = nat   \<comment> \<open>identity of an \<^verbatim>\<open>APIController\<close> object\<close>
type_synonym api = nat   \<comment> \<open>identity of a \<^verbatim>\<open>NinjaExtraAPI\<close> object\<close>

text \<open>
  The values that the code handles through \<^verbatim>\<open>Any\<close>-typed parameters and class
  attributes. \<open>NOT_SET\<close> is the sentinel of \<^verbatim>\<open>ninja.constants\<close>; \<open>PyObj i b\<close>
  is an opaque object with identity \<open>i\<close> whose class makes it truthy exactly when
  \<open>b\<close> holds (Python objects are truthy unless their class defines
  \<^verbatim>\<open>__bool__\<close> or \<^verbatim>\<open>__len__\<close> otherwise).
\<close>

datatype pyval =
    NOT_SET
  | PyNone
  | PyBool bool
  | PyStr string
  | PyList "pyval list"
  | PyObj nat bool
  | RouteFn rfid
  | Ctrl aid
  | ApiRef api

fun truthy :: "pyval \<Rightarrow> bool" where
  "truthy NOT_SET = True"
| "truthy PyNone = False"
| "truthy (PyBool b) = b"
| "truthy (PyStr s) = (s \<noteq> [])"
| "truthy (PyList vs) = (vs \<noteq> [])"
| "truthy (PyObj i b) = b"
| "truthy (RouteFn r) = True"
| "truthy (Ctrl a) = True"
| "truthy (ApiRef a) = True"

text \<open>\<^verbatim>\<open>a or b\<close>\<close>

definition py_or :: "pyval \<Rightarrow> pyval \<Rightarrow> pyval" where
  "py_or a b = (if truthy a then a else b)"

fun is_str :: "pyval \<Rightarrow> bool" where
  "is_str (PyStr s) = True"
| "is_str v = False"

text \<open>\<^verbatim>\<open>str.lower\<close> on the ASCII letters (class names are taken to be ASCII).\<close>

definition lower_char :: "char \<Rightarrow> char" where
  "lower_char c =
     (case map_of (zip ''ABCDEFGHIJKLMNOPQRSTUVWXYZ'' ''abcdefghijklmnopqrstuvwxyz'') c of
        Some d \<Rightarrow> d
      | None \<Rightarrow> c)"

definition lower :: "string \<Rightarrow> string" where
  "lower s = map lower_char s"

text \<open>
  \<^verbatim>\<open>s.replace(old, new)\<close>: every non-overlapping occurrence of \<open>old\<close>, found
  from the left, is replaced; an empty \<open>old\<close> matches before every character and at
  the end.
\<close>

function str_replace :: "string \<Rightarrow> string \<Rightarrow> string \<Rightarrow> string" where
  "str_replace old new s =
     (if old = [] then concat (map (\<lambda>c. new @ [c]) s) @ new
      else if s = [] then []
      else if take (length old) s = old
           then new @ str_replace old new (drop (length old) s)
           else hd s # str_replace old new (tl s))"
  by pat_completeness auto
termination
  by (relation "measure (\<lambda>(old, new, s). length s)") (auto simp: neq_Nil_conv)

declare str_replace.simps [simp del]






section \<open>Errors\<close>

text \<open>The exceptions that the embedded code raises, as values.\<close>

datatype error =
    PermissionDenied "string option"
  | MissingAPIControllerDecoratorException string
  | AttributeError string
  | TypeError string
  | DuplicateRegistration cid

section \<open>Permission evaluation chain\<close>

text \<open>
  A permission class, as far as the chain consults it: the outcome of
  \<^verbatim>\<open>has_permission(request, controller)\<close> and of
  \<^verbatim>\<open>has_object_permission(request, controller, obj)\<close> for the controller instance at
  hand, and the optional \<^verbatim>\<open>message\<close> attribute (\<open>None\<close> when the attribute is
  missing, as \<^verbatim>\<open>getattr(permission, "message", None)\<close> reads it).
\<close>

record permission =
  perm_name :: string
  has_permission :: "pyval \<Rightarrow> bool"
  has_object_permission :: "pyval \<Rightarrow> pyval \<Rightarrow> bool"
  message :: "string option"

text \<open>\<^verbatim>\<open>RouteContext\<close>: the request and the effective permission classes.\<close>

record route_context =
  request :: pyval
  ctx_permission_classes :: "permission list"

text \<open>A \<^verbatim>\<open>ControllerBase\<close> instance: its \<^verbatim>\<open>context\<close> attribute
  (\<open>None\<close> outside a request).\<close>

record controller =
  self_context :: "route_context option"

text \<open>
  What a check does to the permission classes is recorded as a trace: instantiating a
  class, and calling either method of an instance.
\<close>

datatype event =
    Instantiated string
  | HasPermissionCalled string
  | HasObjectPermissionCalled string pyval

definition permission_denied :: "permission \<Rightarrow> error" where
  "permission_denied p = PermissionDenied (message p)"

text \<open>
  \<^verbatim>\<open>_get_permissions\<close> is a generator: nothing when the context is absent, else one
  fresh instance per permission class, made when the consuming loop asks for it.
\<close>

definition get_permissions :: "controller \<Rightarrow> permission list" where
  "get_permissions self =
     (case self_context self of None \<Rightarrow> [] | Some ctx \<Rightarrow> ctx_permission_classes ctx)"

fun prepend :: "event list \<Rightarrow> event list \<times> 'a \<Rightarrow> event list \<times> 'a" where
  "prepend evs (evs', r) = (evs @ evs', r)"

text \<open>The loop of \<^verbatim>\<open>check_permissions\<close> over the generator.\<close>

fun check_permissions_loop ::
  "controller \<Rightarrow> permission list \<Rightarrow> event list \<times> (error + unit)" where
  "check_permissions_loop self [] = ([], Inr ())"
| "check_permissions_loop self (p # ps) =
     (case self_context self of
        None \<Rightarrow> prepend [Instantiated (perm_name p)] (check_permissions_loop self ps)
      | Some ctx \<Rightarrow>
          if truthy (request ctx) then
            if \<not> has_permission p (request ctx) then
              ([Instantiated (perm_name p), HasPermissionCalled (perm_name p)],
               Inl (permission_denied p))
            else
              prepend [Instantiated (perm_name p), HasPermissionCalled (perm_name p)]
                (check_permissions_loop self ps)
          else prepend [Instantiated (perm_name p)] (check_permissions_loop self ps))"

definition check_permissions :: "controller \<Rightarrow> event list \<times> (error + unit)" where
  "check_permissions self = check_permissions_loop self (get_permissions self)"

text \<open>The loop of \<^verbatim>\<open>check_object_permissions\<close>.\<close>

fun check_object_permissions_loop ::
  "controller \<Rightarrow> pyval \<Rightarrow> permission list \<Rightarrow> event list \<times> (error + unit)" where
  "check_object_permissions_loop self obj [] = ([], Inr ())"
| "check_object_permissions_loop self obj (p # ps) =
     (case self_context self of
        None \<Rightarrow> prepend [Instantiated (perm_name p)] (check_object_permissions_loop self obj ps)
      | Some ctx \<Rightarrow>
          if truthy (request ctx) then
            if \<not> has_object_permission p (request ctx) obj then
              ([Instantiated (perm_name p), HasObjectPermissionCalled (perm_name p) obj],
               Inl (permission_denied p))
            else
              prepend [Instantiated (perm_name p), HasObjectPermissionCalled (perm_name p) obj]
                (check_object_permissions_loop self obj ps)
          else prepend [Instantiated (perm_name p)] (check_object_permissions_loop self obj ps))"

definition check_object_permissions ::
  "controller \<Rightarrow> pyval \<Rightarrow> event list \<times> (error + unit)" where
  "check_object_permissions self obj =
     check_object_permissions_loop self obj (get_permissions self)"

text \<open>
  \<^verbatim>\<open>ControllerBase.get_object_or_none\<close>. The lookup itself is the helper of
  \<^verbatim>\<open>ninja_extra.shortcuts\<close>; its result \<open>found\<close> (\<open>PyNone\<close> when nothing
  matches) is a parameter.
\<close>

definition get_object_or_none :: "controller \<Rightarrow> pyval \<Rightarrow> event list \<times> (error + pyval)" where
  "get_object_or_none self found =
     (if truthy found then
        (case check_object_permissions self found of
           (evs, Inl e) \<Rightarrow> (evs, Inl e)
         | (evs, Inr u) \<Rightarrow> (evs, Inr found))
      else ([], Inr found))"

text \<open>
  \<^verbatim>\<open>ControllerBase.get_object_or_exception\<close>; the helper's outcome (an object, or the
  exception it raised) is a parameter.
\<close>

definition get_object_or_exception ::
  "controller \<Rightarrow> error + pyval \<Rightarrow> event list \<times> (error + pyval)" where
  "get_object_or_exception self found =
     (case found of
        Inl e \<Rightarrow> ([], Inl e)
      | Inr obj \<Rightarrow>
          (case check_object_permissions self obj of
             (evs, Inl e) \<Rightarrow> (evs, Inl e)
           | (evs, Inr u) \<Rightarrow> (evs, Inr obj)))"

section \<open>Operations and path views\<close>

text \<open>
  The keyword arguments of \<^verbatim>\<open>add_api_operation\<close>, which are also the fields of a
  route's \<^verbatim>\<open>route_params\<close>.
\<close>

record route_params =
  rp_path :: string
  rp_methods :: "string list"
  rp_auth :: pyval
  rp_response :: pyval
  rp_operation_id :: "string option"
  rp_summary :: "string option"
  rp_description :: "string option"
  rp_tags :: "string list option"
  rp_deprecated :: "bool option"
  rp_by_alias :: bool
  rp_exclude_unset :: bool
  rp_exclude_defaults :: bool
  rp_exclude_none :: bool
  rp_url_name :: "string option"
  rp_include_in_schema :: bool

text \<open>A view callable: the \<^verbatim>\<open>as_view\<close> of a route function, or any other callable.\<close>

datatype view_func = AsView rfid | PlainView nat

record operation =
  op_view_func :: view_func
  op_params :: route_params
  op_api :: "api option"

record path_view =
  pv_operations :: "operation list"
  pv_api :: "api option"

definition PathView :: path_view where
  "PathView = \<lparr>pv_operations = [], pv_api = None\<rparr>"

text \<open>
  Modelled from the spec: \<^verbatim>\<open>PathView.add_operation\<close> of
  \<^verbatim>\<open>ninja_extra.operation\<close> is not among the sources. A path view holds an ordered
  collection of operations; registering builds the operation from the arguments and
  adds it at the end.
\<close>

definition path_view_add_operation ::
  "path_view \<Rightarrow> view_func \<Rightarrow> route_params \<Rightarrow> path_view \<times> operation" where
  "path_view_add_operation pv vf params =
     (let op = \<lparr>op_view_func = vf, op_params = params, op_api = None\<rparr>
      in (pv\<lparr>pv_operations := pv_operations pv @ [op]\<rparr>, op))"


section \<open>The controller descriptor\<close>

record api_controller =
  ac_id :: aid
  prefix :: string
  auth :: pyval
  tags :: pyval
  auto_import :: pyval
  permission_classes :: "permission list"
  controller_class :: "cid option"
  path_operations :: "(string \<times> path_view) list"
  registered :: bool

text \<open>\<^verbatim>\<open>AllowAny\<close> of \<^verbatim>\<open>ninja_extra.permissions\<close>: the policy that always allows.\<close>

definition AllowAny :: permission where
  "AllowAny = \<lparr>perm_name = ''AllowAny'', has_permission = (\<lambda>r. True),
     has_object_permission = (\<lambda>r obj. True), message = None\<rparr>"

text \<open>The setter of the \<^verbatim>\<open>tags\<close> property.\<close>

definition set_tags :: "api_controller \<Rightarrow> pyval \<Rightarrow> api_controller" where
  "set_tags self v = self\<lparr>tags := (if truthy v \<and> is_str v then PyList [v] else v)\<rparr>"

text \<open>
  \<^verbatim>\<open>APIController.__init__\<close>; \<open>i\<close> is the identity of the new object, and
  \<open>permissions\<close> is \<open>None\<close> for Python's \<^verbatim>\<open>None\<close>.
\<close>

definition APIController ::
  "aid \<Rightarrow> string \<Rightarrow> pyval \<Rightarrow> pyval \<Rightarrow> permission list option \<Rightarrow> bool \<Rightarrow> api_controller" where
  "APIController i pfx au tgs permissions auto =
     set_tags
       \<lparr>ac_id = i, prefix = pfx, auth = au, tags = PyNone, auto_import = PyBool auto,
        permission_classes =
          (case permissions of None \<Rightarrow> [AllowAny] | Some ps \<Rightarrow> if ps = [] then [AllowAny] else ps),
        controller_class = None, path_operations = [], registered = False\<rparr>
       tgs"

text \<open>
  \<^verbatim>\<open>add_api_operation\<close>. \<^verbatim>\<open>_path_operations\<close> is a dictionary, kept here in
  insertion order; \<open>AList.update\<close> replaces the value of a key in place and puts a
  new key at the end, as assignment to a Python dictionary does.
\<close>

definition add_api_operation ::
  "api_controller \<Rightarrow> view_func \<Rightarrow> route_params \<Rightarrow> api_controller \<times> operation" where
  "add_api_operation self vf params =
     (let path = rp_path params;
          path_view =
            (case map_of (path_operations self) path of
               None \<Rightarrow> PathView
             | Some pv \<Rightarrow> pv);
          (path_view', operation) =
            path_view_add_operation path_view vf
              (params\<lparr>rp_auth := py_or (rp_auth params) (auth self)\<rparr>)
      in (self\<lparr>path_operations := AList.update path path_view' (path_operations self)\<rparr>,
          operation))"

text \<open>\<^verbatim>\<open>build_routers\<close>\<close>

definition build_routers :: "api_controller \<Rightarrow> (string \<times> api_controller) list" where
  "build_routers self = [(prefix self, self)]"




section \<open>Classes\<close>

text \<open>
  Python computes the method resolution order of a new class by the C3 merge of the
  orders of its bases and the list of the bases: the next class is the head of the
  first list that occurs in the tail of no list; it is removed from the head of every
  list; with no such head left the class cannot be created.
\<close>

definition c3_candidate :: "cid list list \<Rightarrow> cid option" where
  "c3_candidate ls = find (\<lambda>h. list_all (\<lambda>l. h \<notin> set (tl l)) ls) (map hd ls)"

definition c3_remove :: "cid \<Rightarrow> cid list list \<Rightarrow> cid list list" where
  "c3_remove h ls = map (\<lambda>l. if hd l = h then tl l else l) ls"

function c3_merge :: "cid list list \<Rightarrow> cid list option" where
  "c3_merge ls =
     (let remaining = filter (\<lambda>l. l \<noteq> []) ls in
      if remaining = [] then Some []
      else case c3_candidate remaining of
             None \<Rightarrow> None
           | Some h \<Rightarrow> map_option (Cons h) (c3_merge (c3_remove h remaining)))"
  by pat_completeness auto
termination
proof (relation "measure (\<lambda>ls. sum_list (map length ls))")
  show "wf (measure (\<lambda>ls :: cid list list. sum_list (map length ls)))" by simp
next
  fix ls remaining :: "cid list list" and h :: cid
  assume rem: "remaining = filter (\<lambda>l. l \<noteq> []) ls" and "remaining \<noteq> []"
    and cand: "c3_candidate remaining = Some h"
  have shrink: "(\<exists>l \<in> set xs. hd l = h) \<Longrightarrow> \<forall>l \<in> set xs. l \<noteq> [] \<Longrightarrow>
      sum_list (map length (c3_remove h xs)) < sum_list (map length xs)" for xs
  proof (induction xs)
    case Nil
    then show ?case by simp
  next
    case (Cons x xs)
    have le: "sum_list (map length (c3_remove h ys)) \<le> sum_list (map length ys)" for ys
      by (induction ys) (auto simp: c3_remove_def)
    show ?case
    proof (cases "hd x = h")
      case True
      with Cons.prems have "length (tl x) < length x" by simp
      with True le [of xs] show ?thesis by (simp add: c3_remove_def)
    next
      case False
      with Cons.prems have "\<exists>l \<in> set xs. hd l = h" by auto
      with Cons have "sum_list (map length (c3_remove h xs)) < sum_list (map length xs)" by simp
      with False show ?thesis by (simp add: c3_remove_def)
    qed
  qed
  from cand have "h \<in> set (map hd remaining)"
    unfolding c3_candidate_def by (auto simp: find_Some_iff)
  then have ex: "\<exists>l \<in> set remaining. hd l = h" by auto
  have ne: "\<forall>l \<in> set remaining. l \<noteq> []" using rem by simp
  have "sum_list (map length remaining) \<le> sum_list (map length ls)"
    unfolding rem by (induction ls) auto
  with shrink [OF ex ne]
  show "(c3_remove h remaining, ls) \<in> measure (\<lambda>ls. sum_list (map length ls))" by simp
qed

declare c3_merge.simps [simp del]

text \<open>
  A class object: its name, bases and \<^verbatim>\<open>__mro__\<close>, its own \<^verbatim>\<open>__dict__\<close> in
  insertion order, and whether its initializer is marked for injection
  (\<^verbatim>\<open>is_decorated_with_inject\<close>).
\<close>

record pyclass =
  cls_name :: string
  cls_bases :: "cid list"
  cls_mro :: "cid list"
  cls_dict :: "(string \<times> pyval) list"
  cls_inject :: bool

text \<open>
  A \<^verbatim>\<open>RouteFunction\<close>: the name of the decorated function
  (\<^verbatim>\<open>route.view_func.__name__\<close>), its \<^verbatim>\<open>route.route_params\<close> and the
  \<^verbatim>\<open>api_controller\<close> back-reference.
\<close>

record route_function =
  rf_name :: string
  rf_params :: route_params
  rf_api_controller :: "aid option"

text \<open>
  The store. Class objects are allocated in order (\<open>next_class\<close> is the first unused
  identity). The registry is the \<^verbatim>\<open>ControllerRegistry\<close> singleton.
  \<open>inject_ok\<close> tells for which classes the injector library accepts the initializer,
  \<open>uuid4\<close> is the sequence of values that \<^verbatim>\<open>str(uuid.uuid4())\<close> yields and
  \<open>uuid_drawn\<close> counts how many were drawn.
\<close>

record pystate =
  classes :: "cid \<Rightarrow> pyclass"
  next_class :: cid
  route_functions :: "rfid \<Rightarrow> route_function"
  registry :: "cid list"
  registry_rejects :: bool
  inject_ok :: "cid \<Rightarrow> bool"
  uuid4 :: "nat \<Rightarrow> string"
  uuid_drawn :: nat

definition object_cls :: cid where "object_cls = 0"
definition ABC_cls :: cid where "ABC_cls = 1"
definition ControllerBase_cls :: cid where "ControllerBase_cls = 2"

text \<open>The three classes that exist once the module is loaded.\<close>

definition builtin_classes :: "cid \<Rightarrow> pyclass" where
  "builtin_classes =
     (\<lambda>c. \<lparr>cls_name = [], cls_bases = [], cls_mro = [c], cls_dict = [], cls_inject = False\<rparr>)
     (object_cls := \<lparr>cls_name = ''object'', cls_bases = [], cls_mro = [object_cls],
        cls_dict = [], cls_inject = False\<rparr>,
      ABC_cls := \<lparr>cls_name = ''ABC'', cls_bases = [object_cls],
        cls_mro = [ABC_cls, object_cls], cls_dict = [], cls_inject = False\<rparr>,
      ControllerBase_cls := \<lparr>cls_name = ''ControllerBase'', cls_bases = [ABC_cls],
        cls_mro = [ControllerBase_cls, ABC_cls, object_cls],
        cls_dict = [(''_api_controller'', PyNone), (''api'', PyNone), (''context'', PyNone)],
        cls_inject = False\<rparr>)"

text \<open>Attribute lookup on a class: the first \<^verbatim>\<open>__dict__\<close> along the MRO that has the name.\<close>

fun first_some :: "'a option list \<Rightarrow> 'a option" where
  "first_some [] = None"
| "first_some (None # xs) = first_some xs"
| "first_some (Some x # xs) = Some x"

definition class_getattr :: "pystate \<Rightarrow> cid \<Rightarrow> string \<Rightarrow> pyval option" where
  "class_getattr s c name =
     first_some (map (\<lambda>b. map_of (cls_dict (classes s b)) name) (cls_mro (classes s c)))"

text \<open>Attribute assignment on a class writes its own \<^verbatim>\<open>__dict__\<close>.\<close>

definition class_setattr :: "pystate \<Rightarrow> cid \<Rightarrow> string \<Rightarrow> pyval \<Rightarrow> pystate" where
  "class_setattr s c name v =
     s\<lparr>classes := (classes s)
         (c := (classes s c)\<lparr>cls_dict := AList.update name v (cls_dict (classes s c))\<rparr>)\<rparr>"

text \<open>\<^verbatim>\<open>issubclass(cls, base)\<close> by inheritance (no virtual subclasses are registered).\<close>

definition issubclass :: "pystate \<Rightarrow> cid \<Rightarrow> cid \<Rightarrow> bool" where
  "issubclass s c b = (b \<in> set (cls_mro (classes s c)))"

text \<open>
  \<^verbatim>\<open>type(name, bases, namespace)\<close>. For a class below \<^verbatim>\<open>ControllerBase\<close> the
  creation goes through \<^verbatim>\<open>ControllerBaseModelMetaclass.__new__\<close>, which sets the
  new class's own \<^verbatim>\<open>_api_controller\<close> to the namespace's entry or \<^verbatim>\<open>None\<close>.
\<close>

definition type_new ::
  "pystate \<Rightarrow> string \<Rightarrow> cid list \<Rightarrow> (string \<times> pyval) list \<Rightarrow> error + (cid \<times> pystate)" where
  "type_new s name bases namespace =
     (let bases = (if bases = [] then [object_cls] else bases) in
      case c3_merge (map (\<lambda>b. cls_mro (classes s b)) bases @ [bases]) of
        None \<Rightarrow> Inl (TypeError ''Cannot create a consistent method resolution order (MRO)'')
      | Some m \<Rightarrow>
          let cls = next_class s;
              dict =
                (if ControllerBase_cls \<in> set m \<and> \<not> (name = ''ControllerBase'' \<and> ABC_cls \<in> set bases)
                 then AList.update ''_api_controller''
                        (case map_of namespace ''_api_controller'' of None \<Rightarrow> PyNone | Some v \<Rightarrow> v)
                        namespace
                 else namespace)
          in Inr (cls,
                  s\<lparr>classes := (classes s)
                      (cls := \<lparr>cls_name = name, cls_bases = bases, cls_mro = cls # m,
                               cls_dict = dict, cls_inject = False\<rparr>),
                    next_class := Suc cls\<rparr>))"

text \<open>\<^verbatim>\<open>get_route_functions\<close>: the route functions among the values of the class's own dictionary.\<close>

fun route_functions_of :: "(string \<times> pyval) list \<Rightarrow> rfid list" where
  "route_functions_of [] = []"
| "route_functions_of ((name, RouteFn r) # ms) = r # route_functions_of ms"
| "route_functions_of ((name, v) # ms) = route_functions_of ms"

definition get_route_functions :: "pystate \<Rightarrow> cid \<Rightarrow> rfid list" where
  "get_route_functions s cls = route_functions_of (cls_dict (classes s cls))"

section \<open>Finalizing a controller class\<close>

text \<open>
  \<^verbatim>\<open>add_operation_from_route_function\<close>: the operation id is stamped on the route
  function's own parameters, which are then passed on as keyword arguments.
\<close>

definition add_operation_from_route_function ::
  "api_controller \<Rightarrow> rfid \<Rightarrow> pystate \<Rightarrow> api_controller \<times> pystate" where
  "add_operation_from_route_function self r s =
     (let rf = route_functions s r;
          operation_id = take 8 (uuid4 s (uuid_drawn s)) @ ''_controller_'' @ rf_name rf;
          rf = rf\<lparr>rf_params := (rf_params rf)\<lparr>rp_operation_id := Some operation_id\<rparr>\<rparr>;
          s = s\<lparr>route_functions := (route_functions s)(r := rf),
                uuid_drawn := Suc (uuid_drawn s)\<rparr>
      in (fst (add_api_operation self (AsView r) (rf_params rf)), s))"

text \<open>The loop of \<^verbatim>\<open>compute_api_route_function\<close> over the route functions of one class.\<close>

fun compute_loop :: "rfid list \<Rightarrow> api_controller \<Rightarrow> pystate \<Rightarrow> api_controller \<times> pystate" where
  "compute_loop [] self s = (self, s)"
| "compute_loop (r # rs) self s =
     (let s = s\<lparr>route_functions := (route_functions s)
                  (r := (route_functions s r)\<lparr>rf_api_controller := Some (ac_id self)\<rparr>)\<rparr>;
          (self, s) = add_operation_from_route_function self r s
      in compute_loop rs self s)"

definition compute_api_route_function ::
  "cid \<Rightarrow> api_controller \<Rightarrow> pystate \<Rightarrow> api_controller \<times> pystate" where
  "compute_api_route_function base_cls self s =
     compute_loop (get_route_functions s base_cls) self s"

text \<open>The loop of \<^verbatim>\<open>__call__\<close> over the MRO.\<close>

fun bases_loop :: "cid list \<Rightarrow> api_controller \<Rightarrow> pystate \<Rightarrow> api_controller \<times> pystate" where
  "bases_loop [] self s = (self, s)"
| "bases_loop (base_cls # bases) self s =
     (if base_cls \<notin> set [ControllerBase_cls, ABC_cls, object_cls]
      then (let (self, s) = compute_api_route_function base_cls self s
            in bases_loop bases self s)
      else bases_loop bases self s)"

text \<open>
  Modelled from the spec: \<^verbatim>\<open>ControllerRegistry.add_controller\<close> of
  \<^verbatim>\<open>ninja_extra.controllers.registry\<close> is not among the sources. A class appears in
  the registry at most once; registering it again is rejected or ignored, by policy.
\<close>

definition add_controller :: "cid \<Rightarrow> pystate \<Rightarrow> error + pystate" where
  "add_controller cls s =
     (if cls \<in> set (registry s)
      then (if registry_rejects s then Inl (DuplicateRegistration cls) else Inr s)
      else Inr (s\<lparr>registry := registry s @ [cls]\<rparr>))"

text \<open>
  \<^verbatim>\<open>APIController.__call__\<close>: the descriptor used as a class decorator. Its
  steps, in the order of the source:
  \<^verbatim>\<open>self.auto_import = getattr(cls, 'auto_import', self.auto_import)\<close>;
\<close>

definition read_auto_import :: "api_controller \<Rightarrow> cid \<Rightarrow> pystate \<Rightarrow> api_controller" where
  "read_auto_import self cls s =
     self\<lparr>auto_import :=
       (case class_getattr s cls ''auto_import'' of
          None \<Rightarrow> auto_import self
        | Some v \<Rightarrow> v)\<rparr>"

text \<open>
  the class is recombined under \<^verbatim>\<open>ControllerBase\<close> unless it is a subclass already,
  and refers to the descriptor;
\<close>

definition with_controller_base ::
  "api_controller \<Rightarrow> cid \<Rightarrow> pystate \<Rightarrow> error + (cid \<times> pystate)" where
  "with_controller_base self cls s =
     (if \<not> issubclass s cls ControllerBase_cls
      then type_new s (cls_name (classes s cls)) [ControllerBase_cls, cls]
             [(''_api_controller'', Ctrl (ac_id self))]
      else Inr (cls, class_setattr s cls ''_api_controller'' (Ctrl (ac_id self))))"

text \<open>the default tag, when no tags were given;\<close>

definition default_tags :: "api_controller \<Rightarrow> cid \<Rightarrow> pystate \<Rightarrow> api_controller" where
  "default_tags self cls s =
     (if \<not> truthy (tags self)
      then (let tag = str_replace ''controller'' [] (lower (cls_name (classes s cls)))
            in set_tags self (PyList [PyStr tag]))
      else self)"

text \<open>
  after the loop over the MRO, the initializer is marked for injection unless it is
  already, a failure of the injector being swallowed by \<^verbatim>\<open>fail_silently\<close>;
\<close>

definition inject_init :: "cid \<Rightarrow> pystate \<Rightarrow> pystate" where
  "inject_init cls s =
     (if \<not> cls_inject (classes s cls)
      then s\<lparr>classes := (classes s)(cls := (classes s cls)\<lparr>cls_inject := inject_ok s cls\<rparr>)\<rparr>
      else s)"

text \<open>
  and the class is recorded and registered. The result is the finalized class with the
  updated descriptor and store.
\<close>

definition api_controller_call ::
  "api_controller \<Rightarrow> cid \<Rightarrow> pystate \<Rightarrow> error + (cid \<times> api_controller \<times> pystate)" where
  "api_controller_call self cls s =
     (let self = read_auto_import self cls s
      in case with_controller_base self cls s of
           Inl e \<Rightarrow> Inl e
         | Inr (cls, s) \<Rightarrow>
             let self = default_tags self cls s;
                 bases = cls_mro (classes s cls);
                 (self, s) = bases_loop bases self s;
                 s = inject_init cls s;
                 self = self\<lparr>controller_class := Some cls\<rparr>
             in (case add_controller cls s of
                   Inl e \<Rightarrow> Inl e
                 | Inr s \<Rightarrow> Inr (cls, self, s)))"


text \<open>
  \<^verbatim>\<open>ControllerBase.get_api_controller\<close>, a class method. Every class below
  \<^verbatim>\<open>ControllerBase\<close> has the attribute, so the lookup finds a value.
\<close>

definition get_api_controller :: "pystate \<Rightarrow> cid \<Rightarrow> error + pyval" where
  "get_api_controller s cls =
     (case class_getattr s cls ''_api_controller'' of
        None \<Rightarrow> Inl (AttributeError ''_api_controller'')
      | Some v \<Rightarrow>
          if \<not> truthy v
          then Inl (MissingAPIControllerDecoratorException
                 ''api_controller not found. Did you forget to use the `api_controller` decorator'')
          else Inr v)"

section \<open>The path translation in the spec's words\<close>




section \<open>Well-formed stores and counting conversions\<close>

text \<open>
  The invariant of a store built by class creation: \<^verbatim>\<open>ControllerBase\<close> exists, and
  the MRO of every class starts with the class itself, lists no class twice and lists
  existing classes only.
\<close>

definition wf_classes :: "pystate \<Rightarrow> bool" where
  "wf_classes s \<longleftrightarrow>
     ControllerBase_cls < next_class s \<and>
     (\<forall>c < next_class s.
        cls_mro (classes s c) \<noteq> [] \<and> hd (cls_mro (classes s c)) = c \<and>
        distinct (cls_mro (classes s c)) \<and>
        (\<forall>b \<in> set (cls_mro (classes s c)). b < next_class s))"



text \<open>The tags of the descriptor that the decorator returns.\<close>

definition finalized_tags :: "error + (cid \<times> api_controller \<times> pystate) \<Rightarrow> error + pyval" where
  "finalized_tags res = (case res of Inl e \<Rightarrow> Inl e | Inr (R, self, s) \<Rightarrow> Inr (tags self))"



text \<open>
  What the decorator returns, as far as the round trip goes: the class, what its
  \<^verbatim>\<open>get_api_controller\<close> gives, the descriptor's \<^verbatim>\<open>controller_class\<close> and the
  class's MRO.
\<close>

definition finalized_class ::
  "error + (cid \<times> api_controller \<times> pystate) \<Rightarrow>
   error + (cid \<times> (error + pyval) \<times> cid option \<times> cid list)" where
  "finalized_class res =
     (case res of
        Inl e \<Rightarrow> Inl e
      | Inr (R, self, s) \<Rightarrow>
          Inr (R, get_api_controller s R, controller_class self, cls_mro (classes s R)))"


section \<open>Example inputs\<close>

definition deny_all :: permission where
  "deny_all = \<lparr>perm_name = ''DenyAll'', has_permission = (\<lambda>r. False),
     has_object_permission = (\<lambda>r obj. False), message = Some ''no entry''\<rparr>"

definition in_request :: "permission list \<Rightarrow> controller" where
  "in_request ps = \<lparr>self_context = Some \<lparr>request = PyObj 1 True, ctx_permission_classes = ps\<rparr>\<rparr>"

definition without_request :: "permission list \<Rightarrow> controller" where
  "without_request ps = \<lparr>self_context = Some \<lparr>request = PyNone, ctx_permission_classes = ps\<rparr>\<rparr>"


definition example_params :: route_params where
  "example_params =
     \<lparr>rp_path = ''/items/{item_id}'', rp_methods = [''GET''], rp_auth = NOT_SET,
      rp_response = NOT_SET, rp_operation_id = None, rp_summary = None,
      rp_description = None, rp_tags = None, rp_deprecated = None, rp_by_alias = False,
      rp_exclude_unset = False, rp_exclude_defaults = False, rp_exclude_none = False,
      rp_url_name = Some ''item'', rp_include_in_schema = True\<rparr>"

definition shop_controller :: api_controller where
  "shop_controller = APIController 1 ''shop'' (PyObj 7 True) PyNone None True"

definition other_params :: route_params where
  "other_params = example_params\<lparr>rp_path := ''/items'', rp_methods := [''POST'']\<rparr>"




definition example_state :: pystate where
  "example_state =
     \<lparr>classes = builtin_classes, next_class = 3,
      route_functions = (\<lambda>r. \<lparr>rf_name = ''get_item'', rf_params = example_params,
                                 rf_api_controller = None\<rparr>),
      registry = [], registry_rejects = False, inject_ok = (\<lambda>c. True),
      uuid4 = (\<lambda>n. ''1b9d6bcd-bbfd-4b2d-9b5d-ab8dfbbd4bed''), uuid_drawn = 0\<rparr>"

definition plain_class :: "string \<Rightarrow> cid \<Rightarrow> (string \<times> pyval) list \<Rightarrow> pyclass" where
  "plain_class name c dict =
     \<lparr>cls_name = name, cls_bases = [object_cls], cls_mro = [c, object_cls], cls_dict = dict,
      cls_inject = False\<rparr>"

definition widget_state :: pystate where
  "widget_state =
     example_state\<lparr>classes := builtin_classes(3 := plain_class ''WidgetController'' 3 []),
                   next_class := 4\<rparr>"

definition controller_widget_state :: pystate where
  "controller_widget_state =
     example_state\<lparr>classes := builtin_classes(3 := plain_class ''ControllerWidget'' 3 []),
                   next_class := 4\<rparr>"

definition untagged_controller :: api_controller where
  "untagged_controller = APIController 1 [] NOT_SET PyNone None True"




definition item_state :: pystate where
  "item_state =
     example_state\<lparr>classes := builtin_classes
        (3 := \<lparr>cls_name = ''ItemController'', cls_bases = [ControllerBase_cls],
               cls_mro = [3, ControllerBase_cls, ABC_cls, object_cls],
               cls_dict = [(''_api_controller'', PyNone), (''get_item'', RouteFn 0)],
               cls_inject = False\<rparr>),
        next_class := 4\<rparr>"




section \<open>Verified properties\<close>

lemma check_permissions_loop_no_request:
  "self_context self = Some ctx \<Longrightarrow> \<not> truthy (request ctx) \<Longrightarrow>
   check_permissions_loop self ps = (map (\<lambda>p. Instantiated (perm_name p)) ps, Inr ())"
  by (induction ps) auto

lemma check_object_permissions_loop_no_request:
  "self_context self = Some ctx \<Longrightarrow> \<not> truthy (request ctx) \<Longrightarrow>
   check_object_permissions_loop self obj ps = (map (\<lambda>p. Instantiated (perm_name p)) ps, Inr ())"
  by (induction ps) auto

text \<open>
  C3. In a request, when the first permission class in declaration order denies,
  \<^verbatim>\<open>check_permissions\<close> raises the permission-denied error with that class's
  optional message; the trace shows that only this class was instantiated and asked,
  so no later class is ever invoked.
\<close>

theorem check_permissions_short_circuit:
  assumes "self_context self = Some ctx"
    and "truthy (request ctx)"
    and "ctx_permission_classes ctx = p1 # ps"
    and "\<not> has_permission p1 (request ctx)"
  shows "check_permissions self =
           ([Instantiated (perm_name p1), HasPermissionCalled (perm_name p1)],
            Inl (PermissionDenied (message p1)))"
  using assms by (simp add: check_permissions_def get_permissions_def permission_denied_def)

theorem check_permissions_short_circuit_witness:
  "self_context (in_request [deny_all, AllowAny]) =
     Some \<lparr>request = PyObj 1 True, ctx_permission_classes = [deny_all, AllowAny]\<rparr>
   \<and> truthy (PyObj 1 True)
   \<and> \<not> has_permission deny_all (PyObj 1 True)
   \<and> check_permissions (in_request [deny_all, AllowAny]) =
       ([Instantiated ''DenyAll'', HasPermissionCalled ''DenyAll''],
        Inl (PermissionDenied (Some ''no entry'')))"
  using check_permissions_short_circuit
    [of "in_request [deny_all, AllowAny]"
        "\<lparr>request = PyObj 1 True, ctx_permission_classes = [deny_all, AllowAny]\<rparr>"
        deny_all "[AllowAny]"]
  by (simp add: in_request_def deny_all_def)

text \<open>
  C7. With no context, or with a context whose request is absent, both checks return
  without raising and call neither \<^verbatim>\<open>has_permission\<close> nor
  \<^verbatim>\<open>has_object_permission\<close>: without a context the trace is empty, and without
  a request it holds instantiations only.
\<close>

theorem permission_checks_skipped_without_request:
  "(self_context self = None \<longrightarrow>
      check_permissions self = ([], Inr ()) \<and>
      check_object_permissions self obj = ([], Inr ()))
   \<and> (self_context self = Some ctx \<and> \<not> truthy (request ctx) \<longrightarrow>
      check_permissions self =
        (map (\<lambda>p. Instantiated (perm_name p)) (ctx_permission_classes ctx), Inr ()) \<and>
      check_object_permissions self obj =
        (map (\<lambda>p. Instantiated (perm_name p)) (ctx_permission_classes ctx), Inr ()))"
  by (simp add: check_permissions_def check_object_permissions_def get_permissions_def
      check_permissions_loop_no_request check_object_permissions_loop_no_request)

theorem permission_checks_skipped_without_request_witness:
  "self_context \<lparr>self_context = None\<rparr> = None
   \<and> check_permissions \<lparr>self_context = None\<rparr> = ([], Inr ())
   \<and> check_object_permissions \<lparr>self_context = None\<rparr> (PyObj 5 True) = ([], Inr ())
   \<and> \<not> truthy PyNone
   \<and> check_permissions (without_request [deny_all]) = ([Instantiated ''DenyAll''], Inr ())
   \<and> check_object_permissions (without_request [deny_all]) (PyObj 5 True) =
       ([Instantiated ''DenyAll''], Inr ())"
  using permission_checks_skipped_without_request
          [of "\<lparr>self_context = None\<rparr>" "PyObj 5 True"]
        permission_checks_skipped_without_request
          [of "without_request [deny_all]" "PyObj 5 True"
              "\<lparr>request = PyNone, ctx_permission_classes = [deny_all]\<rparr>"]
  by (simp add: without_request_def deny_all_def)

text \<open>
  \<^verbatim>\<open>get_object_or_none\<close> in general. The test before the check is
  \<^verbatim>\<open>if obj:\<close>, so every falsy lookup result, \<^verbatim>\<open>None\<close> included, is returned
  with an empty trace; a truthy result goes through the object-level chain, whose
  error is raised instead of returning the object.
\<close>

lemma get_object_or_none_by_truthiness:
  "(\<not> truthy found \<longrightarrow> get_object_or_none self found = ([], Inr found))
   \<and> (truthy found \<longrightarrow>
        fst (get_object_or_none self found) = fst (check_object_permissions self found)
        \<and> snd (get_object_or_none self found) =
            (case snd (check_object_permissions self found) of
               Inl e \<Rightarrow> Inl e
             | Inr u \<Rightarrow> Inr found))"
  by (simp add: get_object_or_none_def split: prod.splits sum.splits)

lemma get_object_or_none_examples:
  "get_object_or_none (in_request [deny_all]) PyNone = ([], Inr PyNone)
   \<and> get_object_or_none (in_request [deny_all]) (PyObj 5 True) =
       ([Instantiated ''DenyAll'', HasObjectPermissionCalled ''DenyAll'' (PyObj 5 True)],
        Inl (PermissionDenied (Some ''no entry'')))
   \<and> get_object_or_none (in_request [AllowAny]) (PyObj 5 True) =
       ([Instantiated ''AllowAny'', HasObjectPermissionCalled ''AllowAny'' (PyObj 5 True)],
        Inr (PyObj 5 True))"
  by (simp add: get_object_or_none_def in_request_def deny_all_def AllowAny_def
      check_object_permissions_def get_permissions_def permission_denied_def)

text \<open>
  C6. The claim asks that the object-level chain runs on every object that the lookup
  finds. The code misses the found object that is falsy (an instance of a model whose
  class defines \<^verbatim>\<open>__bool__\<close> or \<^verbatim>\<open>__len__\<close>): in a request, under a policy
  that denies everything, \<^verbatim>\<open>get_object_or_none\<close> returns such an object with no
  permission class instantiated or asked, while the sibling
  \<^verbatim>\<open>get_object_or_exception\<close>, given the same found object, runs the chain and
  raises the denial.
\<close>

theorem get_object_or_none_skips_falsy_object:
  "get_object_or_none (in_request [deny_all]) (PyObj 5 False) = ([], Inr (PyObj 5 False))
   \<and> get_object_or_exception (in_request [deny_all]) (Inr (PyObj 5 False)) =
       ([Instantiated ''DenyAll'', HasObjectPermissionCalled ''DenyAll'' (PyObj 5 False)],
        Inl (PermissionDenied (Some ''no entry'')))"
  by (simp add: get_object_or_none_def get_object_or_exception_def in_request_def
      deny_all_def check_object_permissions_def get_permissions_def permission_denied_def)


lemma add_api_operation_fst:
  "fst (add_api_operation self vf params) =
     self\<lparr>path_operations :=
       AList.update (rp_path params)
         (fst (path_view_add_operation
            (case map_of (path_operations self) (rp_path params) of None \<Rightarrow> PathView | Some pv \<Rightarrow> pv)
            vf (params\<lparr>rp_auth := py_or (rp_auth params) (auth self)\<rparr>)))
         (path_operations self)\<rparr>"
  by (simp add: add_api_operation_def Let_def split: prod.splits)

lemma add_api_operation_snd:
  "snd (add_api_operation self vf params) =
     \<lparr>op_view_func = vf, op_params = params\<lparr>rp_auth := py_or (rp_auth params) (auth self)\<rparr>,
      op_api = None\<rparr>"
  by (simp add: add_api_operation_def path_view_add_operation_def Let_def)

text \<open>
  C5, as stated, fails. The code takes \<^verbatim>\<open>auth or self.auth\<close>: a route-level
  \<^verbatim>\<open>None\<close> given explicitly is replaced by the controller's default, and an
  omitted route-level auth, which is the truthy sentinel, is passed on as it is.
\<close>

theorem add_api_operation_auth_counterexample:
  "rp_auth (op_params (snd (add_api_operation shop_controller (PlainView 0)
       (example_params\<lparr>rp_auth := PyNone\<rparr>)))) = PyObj 7 True
   \<and> PyObj 7 True \<noteq> rp_auth (example_params\<lparr>rp_auth := PyNone\<rparr>)
   \<and> rp_auth (op_params (snd (add_api_operation shop_controller (PlainView 0)
       (example_params\<lparr>rp_auth := NOT_SET\<rparr>)))) = NOT_SET
   \<and> NOT_SET \<noteq> auth shop_controller"
  by (simp add: add_api_operation_snd py_or_def shop_controller_def APIController_def
      set_tags_def example_params_def)

text \<open>
  C5, amended. The auth passed to the path view's registration is the route-level
  value when that value is truthy and the controller's own auth otherwise; the
  operation so registered is the last one of the path view at the path.
\<close>

theorem add_api_operation_auth_by_truthiness:
  "rp_auth (op_params (snd (add_api_operation self vf params))) =
     (if truthy (rp_auth params) then rp_auth params else auth self)
   \<and> (\<exists>pv. map_of (path_operations (fst (add_api_operation self vf params))) (rp_path params)
              = Some pv
        \<and> pv_operations pv \<noteq> []
        \<and> last (pv_operations pv) = snd (add_api_operation self vf params))"
  by (simp add: add_api_operation_fst add_api_operation_snd py_or_def update_conv'
      path_view_add_operation_def Let_def)

theorem add_api_operation_auth_by_truthiness_witness:
  "rp_auth (op_params (snd (add_api_operation shop_controller (PlainView 0)
       (example_params\<lparr>rp_auth := PyObj 9 True\<rparr>)))) = PyObj 9 True
   \<and> rp_auth (op_params (snd (add_api_operation shop_controller (PlainView 0)
       (example_params\<lparr>rp_auth := PyList []\<rparr>)))) = PyObj 7 True"
  using add_api_operation_auth_by_truthiness
          [of shop_controller "PlainView 0" "example_params\<lparr>rp_auth := PyObj 9 True\<rparr>"]
        add_api_operation_auth_by_truthiness
          [of shop_controller "PlainView 0" "example_params\<lparr>rp_auth := PyList []\<rparr>"]
  by (simp add: shop_controller_def APIController_def set_tags_def example_params_def)

text \<open>
  C10. \<^verbatim>\<open>add_api_operation\<close> with path \<open>p\<close>: when \<open>p\<close> is not yet a key, it
  is bound to a fresh path view holding just the new operation; when it is, the
  existing path view gains the operation at its end; every other key keeps its path
  view; the keys are the old ones and \<open>p\<close>; nothing else in the descriptor changes.
\<close>

theorem add_api_operation_frame:
  "(map_of (path_operations self) (rp_path params) = None \<longrightarrow>
      map_of (path_operations (fst (add_api_operation self vf params))) (rp_path params) =
        Some \<lparr>pv_operations = [snd (add_api_operation self vf params)], pv_api = None\<rparr>)
   \<and> (\<forall>pv. map_of (path_operations self) (rp_path params) = Some pv \<longrightarrow>
      map_of (path_operations (fst (add_api_operation self vf params))) (rp_path params) =
        Some (pv\<lparr>pv_operations := pv_operations pv @ [snd (add_api_operation self vf params)]\<rparr>))
   \<and> (\<forall>q. q \<noteq> rp_path params \<longrightarrow>
      map_of (path_operations (fst (add_api_operation self vf params))) q =
      map_of (path_operations self) q)
   \<and> fst ` set (path_operations (fst (add_api_operation self vf params))) =
       insert (rp_path params) (fst ` set (path_operations self))
   \<and> (fst (add_api_operation self vf params))\<lparr>path_operations := path_operations self\<rparr> = self"
  by (simp add: add_api_operation_fst add_api_operation_snd update_conv' dom_update
      path_view_add_operation_def PathView_def Let_def)

theorem add_api_operation_frame_witness:
  "map_of (path_operations shop_controller) ''/items'' = None
   \<and> map_of (path_operations (fst (add_api_operation shop_controller (PlainView 0) other_params)))
        ''/items'' =
       Some \<lparr>pv_operations = [snd (add_api_operation shop_controller (PlainView 0) other_params)],
             pv_api = None\<rparr>
   \<and> map_of (path_operations
        (fst (add_api_operation
           (fst (add_api_operation shop_controller (PlainView 0) other_params))
           (PlainView 1) example_params))) ''/items'' =
       Some \<lparr>pv_operations = [snd (add_api_operation shop_controller (PlainView 0) other_params)],
             pv_api = None\<rparr>
   \<and> map_of (path_operations
        (fst (add_api_operation
           (fst (add_api_operation shop_controller (PlainView 0) other_params))
           (PlainView 1) other_params))) ''/items'' =
       Some \<lparr>pv_operations =
               [snd (add_api_operation shop_controller (PlainView 0) other_params),
                snd (add_api_operation shop_controller (PlainView 1) other_params)],
             pv_api = None\<rparr>"
  using add_api_operation_frame [of shop_controller other_params "PlainView 0"]
        add_api_operation_frame
          [of "fst (add_api_operation shop_controller (PlainView 0) other_params)"
              example_params "PlainView 1"]
        add_api_operation_frame
          [of "fst (add_api_operation shop_controller (PlainView 0) other_params)"
              other_params "PlainView 1"]
  by (simp add: shop_controller_def APIController_def set_tags_def example_params_def
      other_params_def add_api_operation_fst add_api_operation_snd path_view_add_operation_def
      PathView_def Let_def)



















subsection \<open>The method resolution order\<close>

lemma c3_candidate_Some:
  assumes "c3_candidate ls = Some h"
  shows "h \<in> hd ` set ls" and "\<forall>l \<in> set ls. h \<notin> set (tl l)"
  using assms unfolding c3_candidate_def
  by (auto simp: find_Some_iff list_all_iff)

lemma c3_remove_sets:
  assumes "\<forall>l \<in> set ls. l \<noteq> []" and "h \<in> hd ` set ls" and "\<forall>l \<in> set ls. h \<notin> set (tl l)"
  shows "\<Union> (set ` set (c3_remove h ls)) = \<Union> (set ` set ls) - {h}"
proof -
  have one: "set (if hd l = h then tl l else l) = set l - {h}" if "l \<in> set ls" for l
  proof (cases l)
    case Nil
    with that assms(1) show ?thesis by blast
  next
    case (Cons x xs)
    with that assms(3) have "h \<notin> set xs" by fastforce
    with Cons show ?thesis by auto
  qed
  have "\<Union> (set ` set (c3_remove h ls)) =
      (\<Union>l \<in> set ls. set (if hd l = h then tl l else l))"
    by (simp only: c3_remove_def set_map image_image)
  also have "\<dots> = (\<Union>l \<in> set ls. set l - {h})"
    by (rule SUP_cong [OF refl]) (rule one)
  also have "\<dots> = \<Union> (set ` set ls) - {h}" by blast
  finally show ?thesis .
qed

lemma c3_merge_set: "c3_merge ls = Some m \<Longrightarrow> set m = \<Union> (set ` set ls)"
proof (induction ls arbitrary: m rule: c3_merge.induct)
  case (1 ls)
  define remaining where "remaining = filter (\<lambda>l. l \<noteq> []) ls"
  have un: "\<Union> (set ` set remaining) = \<Union> (set ` set ls)"
    unfolding remaining_def by auto
  show ?case
  proof (cases "remaining = []")
    case True
    with "1.prems" have "m = []"
      by (subst (asm) c3_merge.simps) (simp add: remaining_def)
    with True un show ?thesis by simp
  next
    case False
    with "1.prems" obtain h m' where h: "c3_candidate remaining = Some h"
      and m': "c3_merge (c3_remove h remaining) = Some m'" and m: "m = h # m'"
      by (subst (asm) c3_merge.simps) (auto simp: remaining_def Let_def split: option.splits)
    have ne: "\<forall>l \<in> set remaining. l \<noteq> []" by (simp add: remaining_def)
    from h have hin: "h \<in> hd ` set remaining" and tails: "\<forall>l \<in> set remaining. h \<notin> set (tl l)"
      by (rule c3_candidate_Some)+
    have "set m' = \<Union> (set ` set (c3_remove h remaining))"
      using "1.IH" [OF remaining_def False h m'] .
    also have "\<dots> = \<Union> (set ` set remaining) - {h}"
      using ne hin tails by (rule c3_remove_sets)
    finally have sm': "set m' = \<Union> (set ` set remaining) - {h}" .
    from hin ne have "h \<in> \<Union> (set ` set remaining)"
      by (auto intro: hd_in_set)
    with sm' m un show ?thesis by auto
  qed
qed

lemma c3_merge_distinct: "c3_merge ls = Some m \<Longrightarrow> distinct m"
proof (induction ls arbitrary: m rule: c3_merge.induct)
  case (1 ls)
  define remaining where "remaining = filter (\<lambda>l. l \<noteq> []) ls"
  show ?case
  proof (cases "remaining = []")
    case True
    with "1.prems" have "m = []"
      by (subst (asm) c3_merge.simps) (simp add: remaining_def)
    then show ?thesis by simp
  next
    case False
    with "1.prems" obtain h m' where h: "c3_candidate remaining = Some h"
      and m': "c3_merge (c3_remove h remaining) = Some m'" and m: "m = h # m'"
      by (subst (asm) c3_merge.simps) (auto simp: remaining_def Let_def split: option.splits)
    have ne: "\<forall>l \<in> set remaining. l \<noteq> []" by (simp add: remaining_def)
    from h have hin: "h \<in> hd ` set remaining" and tails: "\<forall>l \<in> set remaining. h \<notin> set (tl l)"
      by (rule c3_candidate_Some)+
    have "set m' = \<Union> (set ` set (c3_remove h remaining))"
      using m' by (rule c3_merge_set)
    also have "\<dots> = \<Union> (set ` set remaining) - {h}"
      using ne hin tails by (rule c3_remove_sets)
    finally have "h \<notin> set m'" by simp
    moreover have "distinct m'"
      using "1.IH" [OF remaining_def False h m'] .
    ultimately show ?thesis using m by simp
  qed
qed


subsection \<open>What finalizing leaves unchanged\<close>

lemma add_operation_from_route_function_self:
  "(fst (add_operation_from_route_function self r s))\<lparr>path_operations := x\<rparr> =
     self\<lparr>path_operations := x\<rparr>"
  by (simp add: add_operation_from_route_function_def Let_def add_api_operation_fst)

lemma add_operation_from_route_function_classes:
  "classes (snd (add_operation_from_route_function self r s)) = classes s"
  "next_class (snd (add_operation_from_route_function self r s)) = next_class s"
  "registry (snd (add_operation_from_route_function self r s)) = registry s"
  "registry_rejects (snd (add_operation_from_route_function self r s)) = registry_rejects s"
  "inject_ok (snd (add_operation_from_route_function self r s)) = inject_ok s"
  by (simp_all add: add_operation_from_route_function_def Let_def)

lemma compute_loop_self:
  "(fst (compute_loop rs self s))\<lparr>path_operations := x\<rparr> = self\<lparr>path_operations := x\<rparr>"
proof (induction rs arbitrary: self s)
  case Nil
  show ?case by simp
next
  case (Cons r rs)
  show ?case
    by (simp add: Let_def split_beta Cons.IH add_operation_from_route_function_self)
qed

lemma compute_loop_classes:
  "classes (snd (compute_loop rs self s)) = classes s"
  "next_class (snd (compute_loop rs self s)) = next_class s"
  "registry (snd (compute_loop rs self s)) = registry s"
  "registry_rejects (snd (compute_loop rs self s)) = registry_rejects s"
  "inject_ok (snd (compute_loop rs self s)) = inject_ok s"
  by (induction rs arbitrary: self s;
      simp add: Let_def split_beta add_operation_from_route_function_classes)+

lemma bases_loop_self:
  "(fst (bases_loop bs self s))\<lparr>path_operations := x\<rparr> = self\<lparr>path_operations := x\<rparr>"
proof (induction bs arbitrary: self s)
  case Nil
  show ?case by simp
next
  case (Cons b bs)
  show ?case
    by (simp add: Let_def split_beta Cons.IH compute_api_route_function_def compute_loop_self)
qed

lemma bases_loop_classes:
  "classes (snd (bases_loop bs self s)) = classes s"
  "next_class (snd (bases_loop bs self s)) = next_class s"
  "registry (snd (bases_loop bs self s)) = registry s"
  "registry_rejects (snd (bases_loop bs self s)) = registry_rejects s"
  "inject_ok (snd (bases_loop bs self s)) = inject_ok s"
  by (induction bs arbitrary: self s;
      simp add: Let_def split_beta compute_api_route_function_def compute_loop_classes)+

lemma bases_loop_fields:
  "tags (fst (bases_loop bs self s)) = tags self"
  "ac_id (fst (bases_loop bs self s)) = ac_id self"
  "registered (fst (bases_loop bs self s)) = registered self"
  "auth (fst (bases_loop bs self s)) = auth self"
proof -
  have e: "(fst (bases_loop bs self s))\<lparr>path_operations := []\<rparr> = self\<lparr>path_operations := []\<rparr>"
    by (rule bases_loop_self)
  from arg_cong [OF e, of tags] show "tags (fst (bases_loop bs self s)) = tags self" by simp
  from arg_cong [OF e, of ac_id] show "ac_id (fst (bases_loop bs self s)) = ac_id self" by simp
  from arg_cong [OF e, of registered]
  show "registered (fst (bases_loop bs self s)) = registered self" by simp
  from arg_cong [OF e, of auth] show "auth (fst (bases_loop bs self s)) = auth self" by simp
qed

subsection \<open>The steps of the decorator\<close>

lemma type_new_Inr:
  assumes "type_new s name bases namespace = Inr (R, s1)" and "bases \<noteq> []"
  shows "R = next_class s" and "next_class s1 = Suc (next_class s)"
    and "\<exists>m. c3_merge (map (\<lambda>b. cls_mro (classes s b)) bases @ [bases]) = Some m \<and>
           cls_mro (classes s1 R) = R # m"
    and "cls_name (classes s1 R) = name" and "cls_bases (classes s1 R) = bases"
    and "\<And>c. c \<noteq> R \<Longrightarrow> classes s1 c = classes s c"
    and "ControllerBase_cls \<in> set bases \<Longrightarrow> name \<noteq> ''ControllerBase'' \<Longrightarrow>
         cls_dict (classes s1 R) =
           AList.update ''_api_controller''
             (case map_of namespace ''_api_controller'' of None \<Rightarrow> PyNone | Some v \<Rightarrow> v) namespace"
    and "registry s1 = registry s" and "registry_rejects s1 = registry_rejects s"
proof -
  from assms obtain m where m: "c3_merge (map (\<lambda>b. cls_mro (classes s b)) bases @ [bases]) = Some m"
    by (auto simp: type_new_def Let_def split: option.splits)
  from assms m show "R = next_class s" "next_class s1 = Suc (next_class s)"
    "cls_name (classes s1 R) = name" "cls_bases (classes s1 R) = bases"
    "registry s1 = registry s" "registry_rejects s1 = registry_rejects s"
    by (auto simp: type_new_def Let_def)
  from assms m show "\<exists>m. c3_merge (map (\<lambda>b. cls_mro (classes s b)) bases @ [bases]) = Some m \<and>
           cls_mro (classes s1 R) = R # m"
    by (auto simp: type_new_def Let_def)
  from assms m show "\<And>c. c \<noteq> R \<Longrightarrow> classes s1 c = classes s c"
    by (auto simp: type_new_def Let_def)
  have "set m = \<Union> (set ` set (map (\<lambda>b. cls_mro (classes s b)) bases @ [bases]))"
    using m by (rule c3_merge_set)
  then have "set bases \<subseteq> set m" by auto
  with assms m show "ControllerBase_cls \<in> set bases \<Longrightarrow> name \<noteq> ''ControllerBase'' \<Longrightarrow>
         cls_dict (classes s1 R) =
           AList.update ''_api_controller''
             (case map_of namespace ''_api_controller'' of None \<Rightarrow> PyNone | Some v \<Rightarrow> v) namespace"
    by (auto simp: type_new_def Let_def)
qed

lemma api_controller_call_Inr:
  assumes "api_controller_call self cls s = Inr (R, self', s')"
  obtains s1 selfX where
    "with_controller_base self cls s = Inr (R, s1)"
    and "path_operations selfX = path_operations self" and "ac_id selfX = ac_id self"
    and "registered selfX = registered self" and "auth selfX = auth self"
    and "tags selfX = tags (default_tags self R s1)"
    and "self' = (fst (bases_loop (cls_mro (classes s1 R)) selfX s1))\<lparr>controller_class := Some R\<rparr>"
    and "next_class s' = next_class s1"
    and "\<And>c. cls_mro (classes s' c) = cls_mro (classes s1 c)"
    and "\<And>c. cls_dict (classes s' c) = cls_dict (classes s1 c)"
    and "\<And>c. cls_name (classes s' c) = cls_name (classes s1 c)"
    and "\<And>c. cls_bases (classes s' c) = cls_bases (classes s1 c)"
proof -
  define self0 where "self0 = read_auto_import self cls s"
  have w: "with_controller_base self0 cls s = with_controller_base self cls s"
    by (simp add: with_controller_base_def self0_def read_auto_import_def)
  from assms obtain s1 selfB s2 s4 where prep: "with_controller_base self0 cls s = Inr (R, s1)"
    and loop: "bases_loop (cls_mro (classes s1 R)) (default_tags self0 R s1) s1 = (selfB, s2)"
    and reg: "add_controller R (inject_init R s2) = Inr s4"
    and self': "self' = selfB\<lparr>controller_class := Some R\<rparr>" and s': "s' = s4"
    unfolding api_controller_call_def Let_def self0_def [symmetric]
    by (auto split: sum.splits prod.splits)
  from reg have c4: "classes s4 = classes (inject_init R s2)"
    "next_class s4 = next_class (inject_init R s2)"
    by (auto simp: add_controller_def split: if_splits)
  from loop have c2: "classes s2 = classes s1" "next_class s2 = next_class s1"
    using bases_loop_classes(1,2) [of "cls_mro (classes s1 R)" "default_tags self0 R s1" s1]
    by simp_all
  have c3: "next_class (inject_init R s2) = next_class s2"
    "\<And>c. cls_mro (classes (inject_init R s2) c) = cls_mro (classes s2 c)"
    "\<And>c. cls_dict (classes (inject_init R s2) c) = cls_dict (classes s2 c)"
    "\<And>c. cls_name (classes (inject_init R s2) c) = cls_name (classes s2 c)"
    "\<And>c. cls_bases (classes (inject_init R s2) c) = cls_bases (classes s2 c)"
    by (simp_all add: inject_init_def)
  show ?thesis
  proof (rule that [of s1 "default_tags self0 R s1"])
    show "with_controller_base self cls s = Inr (R, s1)" using prep w by simp
    show "path_operations (default_tags self0 R s1) = path_operations self"
      "ac_id (default_tags self0 R s1) = ac_id self"
      "registered (default_tags self0 R s1) = registered self"
      "auth (default_tags self0 R s1) = auth self"
      by (simp_all add: default_tags_def self0_def read_auto_import_def set_tags_def Let_def)
    show "tags (default_tags self0 R s1) = tags (default_tags self R s1)"
      by (simp add: default_tags_def self0_def read_auto_import_def set_tags_def Let_def)
    show "self' = (fst (bases_loop (cls_mro (classes s1 R)) (default_tags self0 R s1) s1))
                    \<lparr>controller_class := Some R\<rparr>"
      using self' loop by simp
    show "next_class s' = next_class s1" by (simp add: s' c4 c3 c2)
    show "\<And>c. cls_mro (classes s' c) = cls_mro (classes s1 c)" by (simp add: s' c4 c3 c2)
    show "\<And>c. cls_dict (classes s' c) = cls_dict (classes s1 c)" by (simp add: s' c4 c3 c2)
    show "\<And>c. cls_name (classes s' c) = cls_name (classes s1 c)" by (simp add: s' c4 c3 c2)
    show "\<And>c. cls_bases (classes s' c) = cls_bases (classes s1 c)" by (simp add: s' c4 c3 c2)
  qed
qed

lemma decorated_class_name:
  assumes "with_controller_base self cls s = Inr (R, s1)"
  shows "cls_name (classes s1 R) = cls_name (classes s cls)"
proof (cases "issubclass s cls ControllerBase_cls")
  case True
  with assms show ?thesis by (auto simp: with_controller_base_def class_setattr_def)
next
  case False
  with assms have "type_new s (cls_name (classes s cls)) [ControllerBase_cls, cls]
      [(''_api_controller'', Ctrl (ac_id self))] = Inr (R, s1)"
    by (simp add: with_controller_base_def)
  then show ?thesis by (rule type_new_Inr(4)) simp
qed


subsection \<open>Evaluating the examples\<close>

lemmas example_simps =
  example_state_def plain_class_def widget_state_def controller_widget_state_def
  untagged_controller_def APIController_def set_tags_def builtin_classes_def
  object_cls_def ABC_cls_def ControllerBase_cls_def example_params_def

lemmas call_simps =
  api_controller_call_def read_auto_import_def with_controller_base_def default_tags_def
  inject_init_def add_controller_def class_getattr_def class_setattr_def issubclass_def
  type_new_def c3_merge.simps c3_candidate_def c3_remove_def get_route_functions_def
  compute_api_route_function_def Let_def

text \<open>
  C4, as stated, fails: \<^verbatim>\<open>replace("controller", "")\<close> removes the word wherever it
  occurs, not only as a suffix. A class named \<^verbatim>\<open>ControllerWidget\<close>, whose name does
  not end in it, gets the tag \<^verbatim>\<open>widget\<close>.
\<close>

theorem default_tag_counterexample:
  "finalized_tags (api_controller_call untagged_controller 3 controller_widget_state) =
     Inr (PyList [PyStr ''widget''])"
  by (simp add: finalized_tags_def example_simps call_simps lower_def lower_char_def
      str_replace.simps)

text \<open>
  C4, amended. Decorated without tags, the descriptor gets the one-element tag list
  holding the class name, lowercased, with every occurrence of \<^verbatim>\<open>controller\<close>
  removed; the returned class keeps the name. \<^verbatim>\<open>WidgetController\<close> gets
  \<^verbatim>\<open>["widget"]\<close>.
\<close>

theorem default_tag_removes_every_controller:
  assumes "\<not> truthy (tags self)"
    and "api_controller_call self cls s = Inr (R, self', s')"
  shows "tags self' =
           PyList [PyStr (str_replace ''controller'' [] (lower (cls_name (classes s cls))))]
         \<and> cls_name (classes s' R) = cls_name (classes s cls)"
proof -
  from assms(2) obtain s1 selfX where
    prep: "with_controller_base self cls s = Inr (R, s1)"
    and tg: "tags selfX = tags (default_tags self R s1)"
    and self': "self' = (fst (bases_loop (cls_mro (classes s1 R)) selfX s1))\<lparr>controller_class := Some R\<rparr>"
    and nm: "\<And>c. cls_name (classes s' c) = cls_name (classes s1 c)"
    by (rule api_controller_call_Inr) blast
  have name: "cls_name (classes s1 R) = cls_name (classes s cls)"
    using prep by (rule decorated_class_name)
  from self' have "tags self' = tags selfX" by (simp add: bases_loop_fields)
  with tg assms(1) name nm show ?thesis
    by (simp add: default_tags_def set_tags_def Let_def)
qed


theorem default_tag_removes_every_controller_witness:
  "\<not> truthy (tags untagged_controller)
   \<and> finalized_tags (api_controller_call untagged_controller 3 widget_state) =
       Inr (PyList [PyStr ''widget''])"
proof -
  have nt: "\<not> truthy (tags untagged_controller)" by (simp add: example_simps)
  obtain R self' s' where
    res: "api_controller_call untagged_controller 3 widget_state = Inr (R, self', s')"
  proof (cases "api_controller_call untagged_controller 3 widget_state")
    case (Inl e)
    then show ?thesis by (simp add: example_simps call_simps)
  next
    case (Inr x)
    with that show ?thesis by (cases x) auto
  qed
  have "tags self' =
      PyList [PyStr (str_replace ''controller'' [] (lower (cls_name (classes widget_state 3))))]"
    using default_tag_removes_every_controller [OF nt res] by simp
  then have "tags self' = PyList [PyStr ''widget'']"
    by (simp add: example_simps lower_def lower_char_def str_replace.simps)
  moreover have "finalized_tags (api_controller_call untagged_controller 3 widget_state) =
      Inr (tags self')"
    by (simp add: res finalized_tags_def)
  ultimately show ?thesis using nt by simp
qed






subsection \<open>The class that the decorator returns\<close>

lemma with_controller_base_mro:
  assumes wf: "wf_classes s" and cls: "cls < next_class s"
    and prep: "with_controller_base self cls s = Inr (R, s1)"
  shows "\<exists>m. cls_mro (classes s1 R) = R # m \<and> R \<notin> set m \<and> distinct m"
    and "ControllerBase_cls \<in> set (cls_mro (classes s1 R))"
    and "cls \<in> set (cls_mro (classes s1 R))"
    and "map_of (cls_dict (classes s1 R)) ''_api_controller'' = Some (Ctrl (ac_id self))"
    and "issubclass s cls ControllerBase_cls \<longrightarrow> R = cls"
    and "\<not> issubclass s cls ControllerBase_cls \<longrightarrow>
           R = next_class s \<and> cls_bases (classes s1 R) = [ControllerBase_cls, cls]"
proof -
  from wf cls have mro: "cls_mro (classes s cls) \<noteq> []" "hd (cls_mro (classes s cls)) = cls"
    "distinct (cls_mro (classes s cls))" "\<forall>b \<in> set (cls_mro (classes s cls)). b < next_class s"
    by (auto simp: wf_classes_def)
  from wf have cb: "ControllerBase_cls < next_class s"
    "\<forall>b \<in> set (cls_mro (classes s ControllerBase_cls)). b < next_class s"
    by (auto simp: wf_classes_def)
  have all: "(\<exists>m. cls_mro (classes s1 R) = R # m \<and> R \<notin> set m \<and> distinct m)
    \<and> ControllerBase_cls \<in> set (cls_mro (classes s1 R))
    \<and> cls \<in> set (cls_mro (classes s1 R))
    \<and> map_of (cls_dict (classes s1 R)) ''_api_controller'' = Some (Ctrl (ac_id self))
    \<and> (issubclass s cls ControllerBase_cls \<longrightarrow> R = cls)
    \<and> (\<not> issubclass s cls ControllerBase_cls \<longrightarrow>
           R = next_class s \<and> cls_bases (classes s1 R) = [ControllerBase_cls, cls])"
  proof (cases "issubclass s cls ControllerBase_cls")
    case True
    with prep have R: "R = cls"
      and s1: "s1 = class_setattr s cls ''_api_controller'' (Ctrl (ac_id self))"
      by (auto simp: with_controller_base_def)
    from mro obtain m where m: "cls_mro (classes s cls) = cls # m"
      by (cases "cls_mro (classes s cls)") auto
    with mro(3) have "cls \<notin> set m" "distinct m" by auto
    with m True show ?thesis
      by (simp add: R s1 class_setattr_def issubclass_def update_conv')
  next
    case False
    with prep have tn: "type_new s (cls_name (classes s cls)) [ControllerBase_cls, cls]
        [(''_api_controller'', Ctrl (ac_id self))] = Inr (R, s1)"
      by (simp add: with_controller_base_def)
    have R: "R = next_class s" using tn by (rule type_new_Inr(1)) simp
    from type_new_Inr(3) [OF tn] obtain m where
      m: "c3_merge (map (\<lambda>b. cls_mro (classes s b)) [ControllerBase_cls, cls]
            @ [[ControllerBase_cls, cls]]) = Some m"
      and mro1: "cls_mro (classes s1 R) = R # m"
      by auto
    have sm: "set m = set (cls_mro (classes s ControllerBase_cls)) \<union> set (cls_mro (classes s cls))
        \<union> {ControllerBase_cls, cls}"
      using c3_merge_set [OF m] by auto
    have dm: "distinct m" using m by (rule c3_merge_distinct)
    from sm mro(4) cb cls have "\<forall>b \<in> set m. b < next_class s" by auto
    then have "R \<notin> set m" using R by auto
    moreover have "cls_bases (classes s1 R) = [ControllerBase_cls, cls]"
      using tn by (rule type_new_Inr(5)) simp
    moreover have "map_of (cls_dict (classes s1 R)) ''_api_controller'' = Some (Ctrl (ac_id self))"
      using tn m by (auto simp: type_new_def Let_def update_conv')
    ultimately show ?thesis using False mro1 sm dm R by simp
  qed
  from all show "\<exists>m. cls_mro (classes s1 R) = R # m \<and> R \<notin> set m \<and> distinct m" by blast
  from all show "ControllerBase_cls \<in> set (cls_mro (classes s1 R))" by blast
  from all show "cls \<in> set (cls_mro (classes s1 R))" by blast
  from all show "map_of (cls_dict (classes s1 R)) ''_api_controller'' = Some (Ctrl (ac_id self))"
    by blast
  from all show "issubclass s cls ControllerBase_cls \<longrightarrow> R = cls" by blast
  from all show "\<not> issubclass s cls ControllerBase_cls \<longrightarrow>
           R = next_class s \<and> cls_bases (classes s1 R) = [ControllerBase_cls, cls]" by blast
qed


subsection \<open>Well-formedness is an invariant\<close>

lemma wf_classes_cong:
  assumes "next_class s' = next_class s"
    and "\<And>c. cls_mro (classes s' c) = cls_mro (classes s c)"
  shows "wf_classes s' = wf_classes s"
  by (simp add: wf_classes_def assms)

lemma wf_classes_example_state: "wf_classes example_state"
  by (simp add: wf_classes_def example_simps eval_nat_numeral less_Suc_eq)

lemma wf_classes_widget_state: "wf_classes widget_state"
  by (simp add: wf_classes_def example_simps eval_nat_numeral less_Suc_eq)

lemma wf_classes_item_state: "wf_classes item_state"
  by (simp add: wf_classes_def item_state_def example_simps eval_nat_numeral less_Suc_eq)

lemma wf_classes_with_controller_base:
  assumes wf: "wf_classes s" and cls: "cls < next_class s"
    and prep: "with_controller_base self cls s = Inr (R, s1)"
  shows "wf_classes s1"
proof (cases "issubclass s cls ControllerBase_cls")
  case True
  with prep have "s1 = class_setattr s cls ''_api_controller'' (Ctrl (ac_id self))"
    by (auto simp: with_controller_base_def)
  then have "wf_classes s1 = wf_classes s"
    by (intro wf_classes_cong) (simp_all add: class_setattr_def)
  with wf show ?thesis by simp
next
  case False
  with prep have tn: "type_new s (cls_name (classes s cls)) [ControllerBase_cls, cls]
      [(''_api_controller'', Ctrl (ac_id self))] = Inr (R, s1)"
    by (simp add: with_controller_base_def)
  have R: "R = next_class s" using tn by (rule type_new_Inr(1)) simp
  have n1: "next_class s1 = Suc (next_class s)" using tn by (rule type_new_Inr(2)) simp
  have old: "classes s1 c = classes s c" if "c \<noteq> R" for c
    using tn _ that by (rule type_new_Inr(6)) simp
  from with_controller_base_mro(1) [OF wf cls prep] obtain m where
    m: "cls_mro (classes s1 R) = R # m" "R \<notin> set m" "distinct m" by blast
  from with_controller_base_mro(6) [OF wf cls prep] False
  have bs: "cls_bases (classes s1 R) = [ControllerBase_cls, cls]" by blast
  from type_new_Inr(3) [OF tn] m(1) have
    mm: "c3_merge (map (\<lambda>b. cls_mro (classes s b)) [ControllerBase_cls, cls]
            @ [[ControllerBase_cls, cls]]) = Some m"
    by auto
  have sm: "set m = set (cls_mro (classes s ControllerBase_cls)) \<union> set (cls_mro (classes s cls))
        \<union> {ControllerBase_cls, cls}"
    using c3_merge_set [OF mm] by auto
  from wf cls have lt: "\<forall>b \<in> set m. b < next_class s"
    unfolding sm by (auto simp: wf_classes_def)
  show ?thesis
    unfolding wf_classes_def
  proof (intro conjI allI impI)
    show "ControllerBase_cls < next_class s1" using wf n1 by (simp add: wf_classes_def)
  next
    fix c assume "c < next_class s1"
    then consider "c = R" | "c < next_class s" using n1 R by (auto simp: less_Suc_eq)
    then have "cls_mro (classes s1 c) \<noteq> [] \<and> hd (cls_mro (classes s1 c)) = c \<and>
        distinct (cls_mro (classes s1 c)) \<and>
        (\<forall>b\<in>set (cls_mro (classes s1 c)). b < next_class s1)"
    proof cases
      case 1
      with m lt n1 R show ?thesis by (auto simp: less_Suc_eq)
    next
      case 2
      then have "c \<noteq> R" using R by simp
      then have "classes s1 c = classes s c" by (rule old)
      with wf 2 n1 show ?thesis by (auto simp: wf_classes_def less_Suc_eq)
    qed
    then show "cls_mro (classes s1 c) \<noteq> []" "hd (cls_mro (classes s1 c)) = c"
      "distinct (cls_mro (classes s1 c))" "\<forall>b\<in>set (cls_mro (classes s1 c)). b < next_class s1"
      by blast+
  qed
qed

lemma wf_classes_api_controller_call:
  assumes "wf_classes s" and "cls < next_class s"
    and "api_controller_call self cls s = Inr (R, self', s')"
  shows "wf_classes s'"
proof -
  from assms(3) obtain s1 where
    prep: "with_controller_base self cls s = Inr (R, s1)"
    and n: "next_class s' = next_class s1"
    and mro': "\<And>c. cls_mro (classes s' c) = cls_mro (classes s1 c)"
    by (rule api_controller_call_Inr) blast
  have "wf_classes s1" using assms(1,2) prep by (rule wf_classes_with_controller_base)
  moreover have "wf_classes s' = wf_classes s1" using n mro' by (rule wf_classes_cong)
  ultimately show ?thesis by simp
qed

text \<open>
  C9. For a class \<open>cls\<close> of a well-formed store passed to the descriptor, the returned
  class \<open>R\<close> gives the descriptor back from \<^verbatim>\<open>get_api_controller\<close>, the
  descriptor's \<^verbatim>\<open>controller_class\<close> is \<open>R\<close>, and \<open>R\<close> is a subclass of
  \<^verbatim>\<open>ControllerBase\<close> and of \<open>cls\<close>: it is \<open>cls\<close> itself when that was a
  \<^verbatim>\<open>ControllerBase\<close> subclass already, and otherwise a new class with the bases
  \<^verbatim>\<open>(ControllerBase, cls)\<close>.
\<close>

theorem decorator_round_trip:
  assumes "wf_classes s" and "cls < next_class s"
    and "api_controller_call self cls s = Inr (R, self', s')"
  shows "get_api_controller s' R = Inr (Ctrl (ac_id self'))
     \<and> ac_id self' = ac_id self
     \<and> controller_class self' = Some R
     \<and> issubclass s' R ControllerBase_cls
     \<and> issubclass s' R cls
     \<and> (issubclass s cls ControllerBase_cls \<longrightarrow> R = cls)
     \<and> (\<not> issubclass s cls ControllerBase_cls \<longrightarrow>
           R = next_class s \<and> R \<noteq> cls \<and> cls_bases (classes s' R) = [ControllerBase_cls, cls])"
proof -
  from assms(3) obtain s1 selfX where
    prep: "with_controller_base self cls s = Inr (R, s1)"
    and idX: "ac_id selfX = ac_id self"
    and self': "self' = (fst (bases_loop (cls_mro (classes s1 R)) selfX s1))\<lparr>controller_class := Some R\<rparr>"
    and mro': "\<And>c. cls_mro (classes s' c) = cls_mro (classes s1 c)"
    and dict': "\<And>c. cls_dict (classes s' c) = cls_dict (classes s1 c)"
    and bases': "\<And>c. cls_bases (classes s' c) = cls_bases (classes s1 c)"
    by (rule api_controller_call_Inr) blast
  note w = with_controller_base_mro [OF assms(1,2) prep]
  from w(1) obtain m where m: "cls_mro (classes s1 R) = R # m" by blast
  have id: "ac_id self' = ac_id self" by (simp add: self' bases_loop_fields idX)
  have "class_getattr s' R ''_api_controller'' = Some (Ctrl (ac_id self))"
    by (simp add: class_getattr_def mro' dict' m w(4))
  then have "get_api_controller s' R = Inr (Ctrl (ac_id self'))"
    by (simp add: get_api_controller_def id)
  moreover have "controller_class self' = Some R" by (simp add: self')
  moreover have "issubclass s' R ControllerBase_cls" "issubclass s' R cls"
    using w(2,3) by (simp_all add: issubclass_def mro')
  moreover have "\<not> issubclass s cls ControllerBase_cls \<longrightarrow>
           R = next_class s \<and> R \<noteq> cls \<and> cls_bases (classes s' R) = [ControllerBase_cls, cls]"
    using w(6) assms(2) by (auto simp: bases')
  ultimately show ?thesis using id w(5) by blast
qed


theorem decorator_round_trip_witness:
  "wf_classes widget_state \<and> 3 < next_class widget_state
   \<and> \<not> issubclass widget_state 3 ControllerBase_cls
   \<and> finalized_class (api_controller_call untagged_controller 3 widget_state) =
       Inr (4, Inr (Ctrl 1), Some 4, [4, 2, 1, 3, 0])
   \<and> wf_classes item_state \<and> 3 < next_class item_state
   \<and> issubclass item_state 3 ControllerBase_cls
   \<and> finalized_class (api_controller_call untagged_controller 3 item_state) =
       Inr (3, Inr (Ctrl 1), Some 3, [3, 2, 1, 0])"
proof -
  have lt: "3 < next_class widget_state" "3 < next_class item_state"
    by (simp_all add: example_simps item_state_def)
  obtain R self' s' where
    res: "api_controller_call untagged_controller 3 widget_state = Inr (R, self', s')"
  proof (cases "api_controller_call untagged_controller 3 widget_state")
    case (Inl e)
    then show ?thesis by (simp add: example_simps call_simps)
  next
    case (Inr x)
    with that show ?thesis by (cases x) auto
  qed
  obtain Q self'' s'' where
    res2: "api_controller_call untagged_controller 3 item_state = Inr (Q, self'', s'')"
  proof (cases "api_controller_call untagged_controller 3 item_state")
    case (Inl e)
    then show ?thesis
      by (simp add: example_simps item_state_def call_simps
          add_operation_from_route_function_def add_api_operation_fst
          path_view_add_operation_def)
  next
    case (Inr x)
    with that show ?thesis by (cases x) auto
  qed
  note rt = decorator_round_trip [OF wf_classes_widget_state lt(1) res]
    decorator_round_trip [OF wf_classes_item_state lt(2) res2]
  have "finalized_class (api_controller_call untagged_controller 3 widget_state) =
       Inr (4, Inr (Ctrl 1), Some 4, [4, 2, 1, 3, 0])"
    by (simp add: finalized_class_def get_api_controller_def example_simps call_simps)
  moreover have "finalized_class (api_controller_call untagged_controller 3 item_state) =
       Inr (3, Inr (Ctrl 1), Some 3, [3, 2, 1, 0])"
    by (simp add: finalized_class_def get_api_controller_def example_simps item_state_def
        call_simps add_operation_from_route_function_def add_api_operation_fst
        path_view_add_operation_def)
  moreover have "\<not> issubclass widget_state 3 ControllerBase_cls"
    "issubclass item_state 3 ControllerBase_cls"
    by (simp_all add: issubclass_def example_simps item_state_def)
  ultimately show ?thesis
    using rt wf_classes_widget_state wf_classes_item_state lt by simp
qed


subsection \<open>Counting conversions\<close>













subsection \<open>Diamond inheritance\<close>









end
